theory Spec2Isabelle
  imports Main "HOL-Library.AList"
begin

section \<open>Known-constant GPR tracking (hw/ip/otbn/util/shared/constants.py)\<close>

text \<open>
  The module tracks which general-purpose registers hold a value known at analysis time.
  A \<open>ConstantContext\<close> object owns one Python dictionary from register names to integers;
  \<open>set\<close> and \<open>update_insn\<close> mutate that dictionary in place, the constructor copies the
  dictionary it is given. The embedding keeps the dictionaries in an explicit object store,
  so that mutation, copying and sharing are visible in the statements.
\<close>

subsection \<open>Python dictionaries\<close>

text \<open>
  A \<open>Dict[str, int]\<close> is an association list in insertion order. The operations are the
  ones the module uses: \<open>d.get(k, None)\<close>, \<open>k in d\<close>, \<open>d[k] = v\<close> (an existing key keeps
  its position, a new key goes to the end), \<open>d.pop(k, None)\<close> and \<open>d.update(e)\<close>
  (which assigns the items of \<open>e\<close> in their order). A dictionary never holds a key twice.
\<close>

type_synonym pydict = "(string \<times> int) list"

definition dict_get :: "pydict \<Rightarrow> string \<Rightarrow> int option" where
  "dict_get d k = map_of d k"

definition dict_contains :: "pydict \<Rightarrow> string \<Rightarrow> bool" where
  "dict_contains d k = (map_of d k \<noteq> None)"

definition dict_setitem :: "string \<Rightarrow> int \<Rightarrow> pydict \<Rightarrow> pydict" where
  "dict_setitem k v d = AList.update k v d"

definition dict_pop :: "string \<Rightarrow> pydict \<Rightarrow> pydict" where
  "dict_pop k d = AList.delete k d"

definition dict_update :: "pydict \<Rightarrow> pydict \<Rightarrow> pydict" where
  "dict_update d e = fold (\<lambda>(k, v). dict_setitem k v) e d"

definition wf_dict :: "pydict \<Rightarrow> bool" where
  "wf_dict d = distinct (map fst d)"

subsection \<open>Errors\<close>

text \<open>
  The module raises in two ways: a failed \<open>assert\<close> and a subscript \<open>d[k]\<close> on a missing
  key. Every function that can raise returns \<open>error + result\<close>.
\<close>

datatype error = AssertionError | KeyError

subsection \<open>The collaborators: operands, instructions, information flow\<close>

text \<open>
  \<open>Insn\<close>, \<open>RegOperandType\<close> and the information-flow graph are imported by the module and
  defined elsewhere; the module reads them only. They are parameters here:
  \<^item> an operand type is either a \<open>RegOperandType\<close>, which carries its rendering
    \<open>op_val_to_str\<close> of an operand value as a register name, or some other operand type;
  \<^item> an instruction has a mnemonic, its operands in order, the dictionary
    \<open>name_to_operand\<close>, and \<open>iflow\<close>: \<open>iflow insn op_vals values\<close> stands for
    \<open>insn.iflow.evaluate(op_vals, values).all_sinks()\<close>, the sink registers enumerated in
    the order the \<open>for\<close> loop visits them.
  The operand values \<open>op_vals\<close> are only ever subscripted, so they are a map.
\<close>

datatype operand_type = RegOperandType "int \<Rightarrow> string" | OtherOperandType

record operand =
  name :: string
  op_type :: operand_type

type_synonym op_vals = "string \<rightharpoonup> int"

record insn =
  mnemonic :: string
  operands :: "operand list"
  name_to_operand :: "string \<rightharpoonup> operand"
  iflow :: "op_vals \<Rightarrow> pydict \<Rightarrow> string list"

text \<open>
  \<open>get_op_val_str\<close> (lines 12-16): \<open>insn.name_to_operand[opname]\<close>, then the assertion that
  the operand is a register operand, then \<open>op_vals[opname]\<close> and its rendering.
\<close>

definition get_op_val_str :: "insn \<Rightarrow> op_vals \<Rightarrow> string \<Rightarrow> error + string" where
  "get_op_val_str insn op_vals opname =
     (case name_to_operand insn opname of
        None \<Rightarrow> Inl KeyError
      | Some op \<Rightarrow>
          (case op_type op of
             OtherOperandType \<Rightarrow> Inl AssertionError
           | RegOperandType op_val_to_str \<Rightarrow>
               (case op_vals opname of
                  None \<Rightarrow> Inl KeyError
                | Some v \<Rightarrow> Inr (op_val_to_str v))))"

subsection \<open>The object store and ConstantContext\<close>

text \<open>
  The store holds the dictionaries owned by ConstantContext objects; a reference is an
  index, and allocation appends. A ConstantContext is its field \<open>values\<close>, a reference
  that is assigned once, in the constructor. (The field is called \<open>values_ref\<close> here,
  \<open>values\<close> being a keyword of Isabelle.)
\<close>

type_synonym heap = "pydict list"

record ConstantContext =
  values_ref :: nat

definition values_of :: "heap \<Rightarrow> ConstantContext \<Rightarrow> pydict" where
  "values_of h self = h ! values_ref self"

definition valid_ctx :: "heap \<Rightarrow> ConstantContext \<Rightarrow> bool" where
  "valid_ctx h self = (values_ref self < length h)"

text \<open>
  \<open>__init__\<close> (lines 25-28): the assertion on \<open>x0\<close> (assertions are taken to be
  enabled), then \<open>self.values = values.copy()\<close>, a new dictionary in the store. The argument is the content of the caller's dictionary
  at the time of the call.
\<close>

definition ConstantContext_init :: "heap \<Rightarrow> pydict \<Rightarrow> error + heap \<times> ConstantContext" where
  "ConstantContext_init h vals =
     (if dict_get vals ''x0'' = Some 0
      then Inr (h @ [vals], \<lparr>values_ref = length h\<rparr>)
      else Inl AssertionError)"

definition empty_ctx :: "heap \<Rightarrow> error + heap \<times> ConstantContext" where
  "empty_ctx h = ConstantContext_init h [(''x0'', 0)]"

definition set_ctx :: "heap \<Rightarrow> ConstantContext \<Rightarrow> string \<Rightarrow> int \<Rightarrow> heap" where
  "set_ctx h self gpr val =
     (if gpr = ''x0'' then h
      else h[values_ref self := dict_setitem gpr val (values_of h self)])"

definition get_ctx :: "heap \<Rightarrow> ConstantContext \<Rightarrow> string \<Rightarrow> int option" where
  "get_ctx h self gpr = dict_get (values_of h self) gpr"

definition contains_ctx :: "heap \<Rightarrow> ConstantContext \<Rightarrow> string \<Rightarrow> bool" where
  "contains_ctx h self gpr = dict_contains (values_of h self) gpr"

definition copy_ctx :: "heap \<Rightarrow> ConstantContext \<Rightarrow> error + heap \<times> ConstantContext" where
  "copy_ctx h self = ConstantContext_init h (values_of h self)"

text \<open>
  \<open>intersect\<close> (lines 52-61): the loop over \<open>self.values.items()\<close> fills the local
  dictionary \<open>out\<close>, which the constructor then copies.
\<close>

definition intersect_step :: "heap \<Rightarrow> ConstantContext \<Rightarrow> string \<times> int \<Rightarrow> pydict \<Rightarrow> pydict" where
  "intersect_step h other kv out =
     (case kv of (k, v) \<Rightarrow>
        if get_ctx h other k = Some v then dict_setitem k v out else out)"

definition intersect :: "heap \<Rightarrow> ConstantContext \<Rightarrow> ConstantContext \<Rightarrow> error + heap \<times> ConstantContext" where
  "intersect h self other =
     (let out = fold (intersect_step h other) (values_of h self) []
      in ConstantContext_init h out)"

subsection \<open>The transfer function\<close>

text \<open>Python's \<open>s.endswith(suf)\<close> and the slice \<open>s[:-n]\<close> for \<open>n > 0\<close>.\<close>

definition endswith :: "string \<Rightarrow> string \<Rightarrow> bool" where
  "endswith s suf = (length suf \<le> length s \<and> drop (length s - length suf) s = suf)"

definition strip_last :: "nat \<Rightarrow> string \<Rightarrow> string" where
  "strip_last n s = take (length s - n) s"

text \<open>
  One iteration of the loop of lines 85-91 over the operands, on the local dictionary
  \<open>new_values\<close>; \<open>vals\<close> is \<open>self.values\<close>, which the loop does not change.
\<close>

definition inc_step :: "pydict \<Rightarrow> insn \<Rightarrow> op_vals \<Rightarrow> operand \<Rightarrow> pydict \<Rightarrow> error + pydict" where
  "inc_step vals insn op_vals op new_values =
     (if endswith (name op) ''_inc'' then
        (case op_vals (name op) of
           None \<Rightarrow> Inl KeyError
         | Some flag \<Rightarrow>
             if flag \<noteq> 0 then
               (let inc_op = strip_last (length ''_inc'') (name op) in
                case get_op_val_str insn op_vals inc_op of
                  Inl e \<Rightarrow> Inl e
                | Inr inc_name \<Rightarrow>
                    (case dict_get vals inc_name of
                       None \<Rightarrow> Inr new_values
                     | Some w \<Rightarrow> Inr (dict_setitem inc_name (w + 1) new_values)))
             else Inr new_values)
      else Inr new_values)"

fun inc_loop :: "pydict \<Rightarrow> insn \<Rightarrow> op_vals \<Rightarrow> operand list \<Rightarrow> pydict \<Rightarrow> error + pydict" where
  "inc_loop vals insn op_vals [] new_values = Inr new_values"
| "inc_loop vals insn op_vals (op # ops) new_values =
     (case inc_step vals insn op_vals op new_values of
        Inl e \<Rightarrow> Inl e
      | Inr new_values' \<Rightarrow> inc_loop vals insn op_vals ops new_values')"

text \<open>
  Lines 72-91 of \<open>update_insn\<close>: the local dictionary \<open>new_values\<close> computed from
  \<open>self.values\<close>, by the \<open>addi\<close> rule, the \<open>lui\<close> rule, or the loop over the operands.
  Python's \<open>imm << 12\<close> on its unbounded integers is \<open>push_bit 12 imm\<close>.
\<close>

definition new_values_of :: "pydict \<Rightarrow> insn \<Rightarrow> op_vals \<Rightarrow> error + pydict" where
  "new_values_of vals insn op_vals =
     (if mnemonic insn = ''addi'' then
        (case get_op_val_str insn op_vals ''grs1'' of
           Inl e \<Rightarrow> Inl e
         | Inr grs1_name \<Rightarrow>
             (case dict_get vals grs1_name of
                None \<Rightarrow> Inr []
              | Some s \<Rightarrow>
                  (case get_op_val_str insn op_vals ''grd'' of
                     Inl e \<Rightarrow> Inl e
                   | Inr grd_name \<Rightarrow>
                       (case op_vals ''imm'' of
                          None \<Rightarrow> Inl KeyError
                        | Some imm \<Rightarrow> Inr (dict_setitem grd_name (s + imm) [])))))
      else if mnemonic insn = ''lui'' then
        (case get_op_val_str insn op_vals ''grd'' of
           Inl e \<Rightarrow> Inl e
         | Inr grd_name \<Rightarrow>
             (case op_vals ''imm'' of
                None \<Rightarrow> Inl KeyError
              | Some imm \<Rightarrow> Inr (dict_setitem grd_name (push_bit 12 imm) [])))
      else inc_loop vals insn op_vals (operands insn) [])"

text \<open>
  Lines 97-102: the sinks are evaluated on \<open>self.values\<close> as it is before any change,
  each sink is popped from \<open>self.values\<close>, and \<open>self.values.update(new_values)\<close> follows.
  Everything that can raise comes before the first mutation, so an error leaves the
  store as it was.
\<close>

definition pop_sinks :: "string list \<Rightarrow> pydict \<Rightarrow> pydict" where
  "pop_sinks sinks d = fold dict_pop sinks d"

definition update_insn :: "heap \<Rightarrow> ConstantContext \<Rightarrow> insn \<Rightarrow> op_vals \<Rightarrow> error + heap" where
  "update_insn h self insn op_vals =
     (case new_values_of (values_of h self) insn op_vals of
        Inl e \<Rightarrow> Inl e
      | Inr new_values \<Rightarrow>
          (let sinks = iflow insn op_vals (values_of h self);
               h1 = h[values_ref self := pop_sinks sinks (values_of h self)];
               h2 = h1[values_ref self := dict_update (values_of h1 self) new_values]
           in Inr h2))"

subsection \<open>The invariant and well-formed inputs\<close>

text \<open>
  The constructor's comment: "The x0 register needs to always be 0". \<open>heap_inv\<close> says it
  of every ConstantContext there is, that is of every dictionary in the store.
\<close>

definition x0_inv :: "pydict \<Rightarrow> bool" where
  "x0_inv d = (dict_get d ''x0'' = Some 0)"

definition heap_inv :: "heap \<Rightarrow> bool" where
  "heap_inv h = list_all x0_inv h"

text \<open>
  A validated instruction with its operand values: \<open>name_to_operand\<close> indexes the operands
  by name (it maps the name of each operand to an operand of that name and that kind),
  every operand has a value, \<open>addi\<close> has the register operands \<open>grs1\<close> and
  \<open>grd\<close> and an operand \<open>imm\<close>, \<open>lui\<close> has \<open>grd\<close> and \<open>imm\<close>, and every operand
  \<open>X_inc\<close> comes with a register operand \<open>X\<close>.
\<close>

definition is_reg :: "operand \<Rightarrow> bool" where
  "is_reg op = (case op_type op of RegOperandType f \<Rightarrow> True | OtherOperandType \<Rightarrow> False)"

definition has_operand :: "insn \<Rightarrow> string \<Rightarrow> bool" where
  "has_operand insn opname = list_ex (\<lambda>op. name op = opname) (operands insn)"

definition has_reg_operand :: "insn \<Rightarrow> string \<Rightarrow> bool" where
  "has_reg_operand insn opname = list_ex (\<lambda>op. name op = opname \<and> is_reg op) (operands insn)"

definition indexed :: "insn \<Rightarrow> operand \<Rightarrow> bool" where
  "indexed insn op =
     (case name_to_operand insn (name op) of
        None \<Rightarrow> False
      | Some op' \<Rightarrow> name op' = name op \<and> is_reg op' = is_reg op)"

definition wf_insn :: "insn \<Rightarrow> op_vals \<Rightarrow> bool" where
  "wf_insn insn op_vals =
     (list_all (\<lambda>op. indexed insn op \<and> op_vals (name op) \<noteq> None) (operands insn)
      \<and> (mnemonic insn = ''addi'' \<longrightarrow>
           has_reg_operand insn ''grs1'' \<and> has_reg_operand insn ''grd'' \<and> has_operand insn ''imm'')
      \<and> (mnemonic insn = ''lui'' \<longrightarrow>
           has_reg_operand insn ''grd'' \<and> has_operand insn ''imm'')
      \<and> list_all (\<lambda>op. endswith (name op) ''_inc'' \<longrightarrow>
                      has_reg_operand insn (strip_last (length ''_inc'') (name op)))
           (operands insn))"

subsection \<open>Concrete instructions\<close>

text \<open>
  Instances of the collaborators, for evaluating the transfer function: a rendering of
  GPR operand values as \<open>x0\<close>, \<open>x1\<close>, ..., the instructions \<open>addi\<close> and \<open>lui\<close> whose
  only sink is the destination register, and an instruction in the shape of the bignum
  loads, with two register operands and their \<open>_inc\<close> flags, whose sinks are the
  registers it increments.
\<close>

definition gpr_names :: "string list" where
  "gpr_names = [''x0'', ''x1'', ''x2'', ''x3'', ''x4'', ''x5'', ''x6'', ''x7'']"

definition gpr_to_str :: "int \<Rightarrow> string" where
  "gpr_to_str v = (if 0 \<le> v \<and> v < 8 then gpr_names ! nat v else ''x?'')"

definition gpr_operand :: "string \<Rightarrow> operand" where
  "gpr_operand n = \<lparr>name = n, op_type = RegOperandType gpr_to_str\<rparr>"

definition imm_operand :: "string \<Rightarrow> operand" where
  "imm_operand n = \<lparr>name = n, op_type = OtherOperandType\<rparr>"

definition operand_dict :: "operand list \<Rightarrow> (string \<rightharpoonup> operand)" where
  "operand_dict ops = map_of (map (\<lambda>op. (name op, op)) ops)"

definition make_insn :: "string \<Rightarrow> operand list \<Rightarrow> (op_vals \<Rightarrow> pydict \<Rightarrow> string list) \<Rightarrow> insn" where
  "make_insn m ops fl =
     \<lparr>mnemonic = m, operands = ops, name_to_operand = operand_dict ops, iflow = fl\<rparr>"

definition grd_sink :: "op_vals \<Rightarrow> pydict \<Rightarrow> string list" where
  "grd_sink op_vals vals = (case op_vals ''grd'' of None \<Rightarrow> [] | Some v \<Rightarrow> [gpr_to_str v])"

definition inc_sink :: "op_vals \<Rightarrow> string \<Rightarrow> string list" where
  "inc_sink op_vals r =
     (case op_vals r of
        None \<Rightarrow> []
      | Some v \<Rightarrow>
          (case op_vals (r @ ''_inc'') of
             None \<Rightarrow> []
           | Some flag \<Rightarrow> if flag \<noteq> 0 then [gpr_to_str v] else []))"

definition inc_sinks :: "op_vals \<Rightarrow> pydict \<Rightarrow> string list" where
  "inc_sinks op_vals vals = inc_sink op_vals ''grs1'' @ inc_sink op_vals ''grd''"

definition addi_insn :: insn where
  "addi_insn =
     make_insn ''addi'' [gpr_operand ''grd'', gpr_operand ''grs1'', imm_operand ''imm''] grd_sink"

definition lui_insn :: insn where
  "lui_insn = make_insn ''lui'' [gpr_operand ''grd'', imm_operand ''imm''] grd_sink"

definition lid_insn :: insn where
  "lid_insn =
     make_insn ''bn.lid''
       [gpr_operand ''grd'', gpr_operand ''grs1'', imm_operand ''offset'',
        imm_operand ''grs1_inc'', imm_operand ''grd_inc'']
       inc_sinks"

definition ctx0 :: ConstantContext where
  "ctx0 = \<lparr>values_ref = 0\<rparr>"

definition ctx1 :: ConstantContext where
  "ctx1 = \<lparr>values_ref = 1\<rparr>"

section \<open>Properties\<close>

subsection \<open>Dictionaries\<close>

lemma map_of_dict_setitem: "map_of (dict_setitem k v d) = (map_of d)(k \<mapsto> v)"
  by (simp add: dict_setitem_def update_conv')

lemma map_of_dict_pop: "map_of (dict_pop k d) = (map_of d)(k := None)"
  by (simp add: dict_pop_def delete_conv')

lemma map_of_pop_sinks:
  "map_of (pop_sinks sinks d) k = (if k \<in> set sinks then None else map_of d k)"
  unfolding pop_sinks_def
  by (induction sinks arbitrary: d) (simp_all add: map_of_dict_pop)

lemma wf_dict_setitem: "wf_dict d \<Longrightarrow> wf_dict (dict_setitem k v d)"
  by (simp add: wf_dict_def dict_setitem_def distinct_update)

lemma wf_dict_pop: "wf_dict d \<Longrightarrow> wf_dict (dict_pop k d)"
  by (simp add: wf_dict_def dict_pop_def distinct_delete)

lemma wf_pop_sinks: "wf_dict d \<Longrightarrow> wf_dict (pop_sinks sinks d)"
  unfolding pop_sinks_def
  by (induction sinks arbitrary: d) (simp_all add: wf_dict_pop)

lemma dict_update_Nil: "dict_update d [] = d"
  by (simp add: dict_update_def)

lemma dict_update_Cons: "dict_update d ((k, v) # e) = dict_update (dict_setitem k v d) e"
  by (simp add: dict_update_def)

lemma map_of_dict_update:
  "wf_dict e \<Longrightarrow>
   map_of (dict_update d e) k = (case map_of e k of None \<Rightarrow> map_of d k | Some v \<Rightarrow> Some v)"
proof (induction e arbitrary: d)
  case Nil
  then show ?case by (simp add: dict_update_Nil)
next
  case (Cons kv e)
  obtain k' v' where kv: "kv = (k', v')" by (cases kv)
  from Cons.prems have wf: "wf_dict e" and notin: "k' \<notin> fst ` set e"
    by (auto simp: wf_dict_def kv)
  from notin have none: "map_of e k' = None"
    by (simp add: map_of_eq_None_iff)
  show ?case
    using Cons.IH [OF wf, of "dict_setitem k' v' d"] none
    by (auto simp: kv dict_update_Cons map_of_dict_setitem split: option.splits)
qed

lemma wf_dict_update: "wf_dict d \<Longrightarrow> wf_dict (dict_update d e)"
proof (induction e arbitrary: d)
  case Nil
  then show ?case by (simp add: dict_update_Nil)
next
  case (Cons kv e)
  then show ?case by (cases kv) (simp add: dict_update_Cons wf_dict_setitem)
qed

lemma inc_step_wf:
  "inc_step vals insn ov op nv = Inr nv' \<Longrightarrow> wf_dict nv \<Longrightarrow> wf_dict nv'"
  by (auto simp: inc_step_def Let_def wf_dict_setitem split: if_splits option.splits sum.splits)

lemma inc_loop_wf:
  "inc_loop vals insn ov ops nv = Inr nv' \<Longrightarrow> wf_dict nv \<Longrightarrow> wf_dict nv'"
proof (induction ops arbitrary: nv)
  case Nil
  then show ?case by simp
next
  case (Cons op ops)
  then show ?case by (auto split: sum.splits dest: inc_step_wf)
qed

lemma wf_dict_Nil: "wf_dict []"
  by (simp add: wf_dict_def)

lemma new_values_wf:
  "new_values_of vals insn ov = Inr nv \<Longrightarrow> wf_dict nv"
  unfolding new_values_of_def
  by (auto simp: wf_dict_setitem wf_dict_Nil split: if_splits option.splits sum.splits
           dest: inc_loop_wf)

lemma update_insn_Inr:
  assumes "valid_ctx h self" and "update_insn h self insn ov = Inr h'"
  shows "\<exists>nv. new_values_of (values_of h self) insn ov = Inr nv \<and>
     h' = h[values_ref self :=
             dict_update (pop_sinks (iflow insn ov (values_of h self)) (values_of h self)) nv]"
  using assms
  by (auto simp: update_insn_def Let_def values_of_def valid_ctx_def split: sum.splits)

lemma update_insn_get:
  assumes valid: "valid_ctx h self"
    and upd: "update_insn h self insn ov = Inr h'"
    and nv: "new_values_of (values_of h self) insn ov = Inr nv"
  shows "get_ctx h' self r =
     (case dict_get nv r of
        Some v \<Rightarrow> Some v
      | None \<Rightarrow> if r \<in> set (iflow insn ov (values_of h self)) then None else get_ctx h self r)"
proof -
  from update_insn_Inr [OF valid upd] nv
  have h': "h' = h[values_ref self :=
             dict_update (pop_sinks (iflow insn ov (values_of h self)) (values_of h self)) nv]"
    by auto
  have wf: "wf_dict nv" using nv by (rule new_values_wf)
  from valid have "values_of h' self =
      dict_update (pop_sinks (iflow insn ov (values_of h self)) (values_of h self)) nv"
    by (simp add: h' values_of_def valid_ctx_def)
  then show ?thesis
    by (simp add: get_ctx_def dict_get_def map_of_dict_update [OF wf] map_of_pop_sinks
             split: option.splits)
qed

lemma update_insn_other_cells:
  assumes "update_insn h self insn ov = Inr h'"
  shows "length h' = length h \<and> (\<forall>r. r \<noteq> values_ref self \<longrightarrow> h' ! r = h ! r)"
  using assms by (auto simp: update_insn_def Let_def split: sum.splits)

subsection \<open>Well-formed instructions do not raise\<close>

lemma get_op_val_str_wf:
  assumes all: "list_all (\<lambda>op. indexed insn op \<and> ov (name op) \<noteq> None) (operands insn)"
    and reg: "has_reg_operand insn n"
  shows "\<exists>s. get_op_val_str insn ov n = Inr s"
proof -
  from reg obtain op where op: "op \<in> set (operands insn)" "name op = n" "is_reg op"
    by (auto simp: has_reg_operand_def list_ex_iff)
  from all op(1) have ix: "indexed insn op" and val: "ov (name op) \<noteq> None"
    by (auto simp: list_all_iff)
  from ix op(2,3) obtain op' where op': "name_to_operand insn n = Some op'" "is_reg op'"
    by (auto simp: indexed_def split: option.splits)
  from op'(2) obtain f where "op_type op' = RegOperandType f"
    by (auto simp: is_reg_def split: operand_type.splits)
  with op'(1) val op(2) show ?thesis
    by (auto simp: get_op_val_str_def)
qed

lemma op_val_wf:
  assumes all: "list_all (\<lambda>op. indexed insn op \<and> ov (name op) \<noteq> None) (operands insn)"
    and has: "has_operand insn n"
  shows "\<exists>v. ov n = Some v"
  using assms by (auto simp: has_operand_def list_ex_iff list_all_iff)

lemma inc_step_wf_insn:
  assumes wf: "wf_insn insn ov" and op: "op \<in> set (operands insn)"
  shows "\<exists>nv'. inc_step vals insn ov op nv = Inr nv'"
proof (cases "endswith (name op) ''_inc''")
  case False
  then show ?thesis by (simp add: inc_step_def)
next
  case True
  from wf have all: "list_all (\<lambda>op. indexed insn op \<and> ov (name op) \<noteq> None) (operands insn)"
    by (simp add: wf_insn_def)
  from all op obtain flag where flag: "ov (name op) = Some flag"
    by (auto simp: list_all_iff)
  from wf op True have "has_reg_operand insn (strip_last (length ''_inc'') (name op))"
    by (auto simp: wf_insn_def list_all_iff)
  from get_op_val_str_wf [OF all this]
  obtain s where "get_op_val_str insn ov (strip_last (length ''_inc'') (name op)) = Inr s" ..
  with True flag show ?thesis
    by (auto simp: inc_step_def Let_def split: option.splits)
qed

lemma inc_loop_wf_insn:
  assumes wf: "wf_insn insn ov"
  shows "set ops \<subseteq> set (operands insn) \<Longrightarrow> \<exists>nv'. inc_loop vals insn ov ops nv = Inr nv'"
proof (induction ops arbitrary: nv)
  case Nil
  then show ?case by simp
next
  case (Cons op ops)
  from Cons.prems have "op \<in> set (operands insn)" by simp
  from inc_step_wf_insn [OF wf this]
  obtain nv1 where "inc_step vals insn ov op nv = Inr nv1" by blast
  moreover from Cons.prems have "set ops \<subseteq> set (operands insn)" by simp
  from Cons.IH [OF this] obtain nv' where "inc_loop vals insn ov ops nv1 = Inr nv'" by blast
  ultimately show ?case by simp
qed

lemma new_values_of_wf_insn:
  assumes wf: "wf_insn insn ov"
  shows "\<exists>nv. new_values_of vals insn ov = Inr nv"
proof -
  from wf have all: "list_all (\<lambda>op. indexed insn op \<and> ov (name op) \<noteq> None) (operands insn)"
    by (simp add: wf_insn_def)
  show ?thesis
  proof (cases "mnemonic insn = ''addi''")
    case True
    with wf have "has_reg_operand insn ''grs1''" "has_reg_operand insn ''grd''"
      "has_operand insn ''imm''"
      by (simp_all add: wf_insn_def)
    then obtain a b c where "get_op_val_str insn ov ''grs1'' = Inr a"
      "get_op_val_str insn ov ''grd'' = Inr b" "ov ''imm'' = Some c"
      using get_op_val_str_wf [OF all, of "''grs1''"] get_op_val_str_wf [OF all, of "''grd''"]
        op_val_wf [OF all, of "''imm''"]
      by auto
    with True show ?thesis
      by (simp add: new_values_of_def split: option.splits)
  next
    case False
    show ?thesis
    proof (cases "mnemonic insn = ''lui''")
      case True
      with wf have "has_reg_operand insn ''grd''" "has_operand insn ''imm''"
        by (simp_all add: wf_insn_def)
      then obtain b c where "get_op_val_str insn ov ''grd'' = Inr b" "ov ''imm'' = Some c"
        using get_op_val_str_wf [OF all, of "''grd''"] op_val_wf [OF all, of "''imm''"]
        by auto
      with True show ?thesis
        by (simp add: new_values_of_def)
    next
      case False
      with \<open>mnemonic insn \<noteq> ''addi''\<close> inc_loop_wf_insn [OF wf subset_refl]
      show ?thesis
        by (simp add: new_values_of_def)
    qed
  qed
qed

lemma update_insn_wf_insn:
  assumes "wf_insn insn ov"
  shows "\<exists>h'. update_insn h self insn ov = Inr h'"
proof -
  from new_values_of_wf_insn [OF assms]
  obtain nv where "new_values_of (values_of h self) insn ov = Inr nv" by blast
  then show ?thesis by (simp add: update_insn_def Let_def)
qed

lemma update_insn_Inl:
  "update_insn h self insn ov = Inl e \<longleftrightarrow> new_values_of (values_of h self) insn ov = Inl e"
  by (simp add: update_insn_def Let_def split: sum.splits)

subsection \<open>The loop over the operands\<close>

lemma inc_loop_snoc:
  "inc_loop vals insn ov (ops @ [op]) nv =
     (case inc_loop vals insn ov ops nv of
        Inl e \<Rightarrow> Inl e
      | Inr nv1 \<Rightarrow> inc_step vals insn ov op nv1)"
  by (induction ops arbitrary: nv) (auto split: sum.splits)

lemma inc_step_fires:
  assumes "endswith (name op) ''_inc''" and "ov (name op) = Some flag" and "flag \<noteq> 0"
    and "get_op_val_str insn ov (strip_last (length ''_inc'') (name op)) = Inr r"
    and "dict_get vals r = Some w"
  shows "inc_step vals insn ov op nv = Inr (dict_setitem r (w + 1) nv)"
  using assms by (simp add: inc_step_def Let_def)

lemma inc_step_keeps:
  assumes step: "inc_step vals insn ov op nv = Inr nv'"
    and old: "dict_get vals r = Some w"
    and cur: "dict_get nv r = Some (w + 1)"
  shows "dict_get nv' r = Some (w + 1)"
  using assms
  by (auto simp: inc_step_def Let_def dict_get_def map_of_dict_setitem
           split: if_splits option.splits sum.splits)

lemma inc_loop_keeps:
  assumes old: "dict_get vals r = Some w"
  shows "inc_loop vals insn ov ops nv = Inr nv' \<Longrightarrow> dict_get nv r = Some (w + 1) \<Longrightarrow>
         dict_get nv' r = Some (w + 1)"
proof (induction ops arbitrary: nv)
  case Nil
  then show ?case by simp
next
  case (Cons op ops)
  from Cons.prems(1) obtain nv1 where step: "inc_step vals insn ov op nv = Inr nv1"
    and rest: "inc_loop vals insn ov ops nv1 = Inr nv'"
    by (auto split: sum.splits)
  from inc_step_keeps [OF step old Cons.prems(2)] have "dict_get nv1 r = Some (w + 1)" .
  with Cons.IH [OF rest] show ?case by simp
qed

lemma inc_loop_fires:
  assumes ends: "endswith (name op) ''_inc''" and flag: "ov (name op) = Some flag" "flag \<noteq> 0"
    and base: "get_op_val_str insn ov (strip_last (length ''_inc'') (name op)) = Inr r"
    and old: "dict_get vals r = Some w"
  shows "op \<in> set ops \<Longrightarrow> inc_loop vals insn ov ops nv = Inr nv' \<Longrightarrow>
         dict_get nv' r = Some (w + 1)"
proof (induction ops arbitrary: nv)
  case Nil
  then show ?case by simp
next
  case (Cons op' ops)
  from Cons.prems(2) obtain nv1 where step: "inc_step vals insn ov op' nv = Inr nv1"
    and rest: "inc_loop vals insn ov ops nv1 = Inr nv'"
    by (auto split: sum.splits)
  show ?case
  proof (cases "op' = op")
    case True
    with step inc_step_fires [OF ends flag base old, of nv]
    have "nv1 = dict_setitem r (w + 1) nv" by simp
    then have "dict_get nv1 r = Some (w + 1)"
      by (simp add: dict_get_def map_of_dict_setitem)
    with inc_loop_keeps [OF old rest] show ?thesis by simp
  next
    case False
    with Cons.prems(1) have "op \<in> set ops" by simp
    from Cons.IH [OF this rest] show ?thesis .
  qed
qed

subsection \<open>Intersection, the constructor and the invariant\<close>

lemma dict_setitem_fresh:
  "k \<notin> fst ` set d \<Longrightarrow> dict_setitem k v d = d @ [(k, v)]"
  unfolding dict_setitem_def
  by (induction d) auto

lemma intersect_fold:
  "distinct (map fst xs) \<Longrightarrow> fst ` set acc \<inter> fst ` set xs = {} \<Longrightarrow>
   fold (intersect_step h other) xs acc =
     acc @ filter (\<lambda>(k, v). get_ctx h other k = Some v) xs"
proof (induction xs arbitrary: acc)
  case Nil
  then show ?case by simp
next
  case (Cons kv xs)
  obtain k v where kv: "kv = (k, v)" by (cases kv)
  from Cons.prems have dist: "distinct (map fst xs)" and k_xs: "k \<notin> fst ` set xs"
    and k_acc: "k \<notin> fst ` set acc" and disj: "fst ` set acc \<inter> fst ` set xs = {}"
    by (auto simp: kv)
  show ?case
  proof (cases "get_ctx h other k = Some v")
    case True
    then have step: "intersect_step h other kv acc = acc @ [(k, v)]"
      by (simp add: intersect_step_def kv dict_setitem_fresh [OF k_acc])
    from k_xs disj have "fst ` set (acc @ [(k, v)]) \<inter> fst ` set xs = {}"
      by auto
    from Cons.IH [OF dist this] step True show ?thesis
      by (simp add: kv)
  next
    case False
    then have "intersect_step h other kv acc = acc"
      by (simp add: intersect_step_def kv)
    with Cons.IH [OF dist disj] False show ?thesis
      by (simp add: kv)
  qed
qed

lemma intersect_out:
  assumes "wf_dict (values_of h self)"
  shows "fold (intersect_step h other) (values_of h self) [] =
     filter (\<lambda>(k, v). get_ctx h other k = Some v) (values_of h self)"
  using intersect_fold [of "values_of h self" "[]" h other] assms
  by (simp add: wf_dict_def)

lemma map_of_filter_distinct:
  assumes "distinct (map fst d)"
  shows "map_of (filter P d) k = Some v \<longleftrightarrow> map_of d k = Some v \<and> P (k, v)"
proof -
  from assms have "distinct (map fst (filter P d))"
    by (rule distinct_map_filter)
  then have "map_of (filter P d) k = Some v \<longleftrightarrow> (k, v) \<in> set (filter P d)"
    by simp
  also have "\<dots> \<longleftrightarrow> (k, v) \<in> set d \<and> P (k, v)" by simp
  also from assms have "\<dots> \<longleftrightarrow> map_of d k = Some v \<and> P (k, v)" by simp
  finally show ?thesis .
qed

lemma intersect_Inr:
  assumes wf: "wf_dict (values_of h self)"
    and inv: "x0_inv (values_of h self)" "x0_inv (values_of h other)"
  shows "intersect h self other =
     Inr (h @ [filter (\<lambda>(k, v). get_ctx h other k = Some v) (values_of h self)],
          \<lparr>values_ref = length h\<rparr>)"
proof -
  let ?out = "filter (\<lambda>(k, v). get_ctx h other k = Some v) (values_of h self)"
  from wf have dist: "distinct (map fst (values_of h self))"
    by (simp add: wf_dict_def)
  from inv have "map_of ?out ''x0'' = Some 0"
    by (simp add: map_of_filter_distinct [OF dist] x0_inv_def dict_get_def get_ctx_def)
  then show ?thesis
    by (simp add: intersect_def intersect_out [OF wf] ConstantContext_init_def dict_get_def)
qed

lemma values_of_new:
  "values_of (h @ [d]) \<lparr>values_ref = length h\<rparr> = d"
  by (simp add: values_of_def)

lemma values_of_old:
  "valid_ctx h c \<Longrightarrow> values_of (h @ [d]) c = values_of h c"
  by (simp add: values_of_def valid_ctx_def nth_append)

lemmas intersect_defs = intersect_def intersect_step_def ConstantContext_init_def wf_dict_def

text \<open>
  \<open>empty\<close>, the constructor, \<open>copy\<close>, \<open>intersect\<close> and \<open>set\<close> keep the invariant of
  every context in the store; \<open>update_insn\<close> keeps it when \<open>x0\<close> is neither a sink nor a
  key of \<open>new_values\<close>.
\<close>

lemma init_Inr:
  "x0_inv vals \<Longrightarrow> ConstantContext_init h vals = Inr (h @ [vals], \<lparr>values_ref = length h\<rparr>)"
  by (simp add: ConstantContext_init_def x0_inv_def)

lemma init_Inl:
  "ConstantContext_init h vals = Inl e \<longleftrightarrow> e = AssertionError \<and> \<not> x0_inv vals"
  by (auto simp: ConstantContext_init_def x0_inv_def)

lemma heap_inv_init:
  "heap_inv h \<Longrightarrow> ConstantContext_init h vals = Inr (h', c) \<Longrightarrow> heap_inv h' \<and> valid_ctx h' c"
  by (auto simp: ConstantContext_init_def heap_inv_def x0_inv_def valid_ctx_def split: if_splits)

lemma heap_inv_empty:
  "heap_inv h \<Longrightarrow> empty_ctx h = Inr (h', c) \<Longrightarrow> heap_inv h' \<and> valid_ctx h' c"
  unfolding empty_ctx_def by (rule heap_inv_init)

lemma heap_inv_copy:
  "heap_inv h \<Longrightarrow> copy_ctx h self = Inr (h', c) \<Longrightarrow> heap_inv h' \<and> valid_ctx h' c"
  unfolding copy_ctx_def by (rule heap_inv_init)

lemma heap_inv_intersect:
  "heap_inv h \<Longrightarrow> intersect h self other = Inr (h', c) \<Longrightarrow> heap_inv h' \<and> valid_ctx h' c"
  unfolding intersect_def Let_def by (rule heap_inv_init)

lemma heap_inv_nth:
  "heap_inv h \<Longrightarrow> valid_ctx h c \<Longrightarrow> x0_inv (values_of h c)"
  by (simp add: heap_inv_def valid_ctx_def values_of_def list_all_length)

lemma heap_inv_set_ctx:
  assumes "heap_inv h"
  shows "heap_inv (set_ctx h self gpr val)"
proof (cases "gpr = ''x0''")
  case True
  with assms show ?thesis by (simp add: set_ctx_def)
next
  case gpr: False
  show ?thesis
  proof (cases "valid_ctx h self")
    case False
    then have "h[values_ref self := dict_setitem gpr val (values_of h self)] = h"
      by (simp add: valid_ctx_def list_update_beyond)
    with assms gpr show ?thesis by (simp add: set_ctx_def)
  next
    case True
    from heap_inv_nth [OF assms True] gpr
    have "x0_inv (dict_setitem gpr val (values_of h self))"
      by (simp add: x0_inv_def dict_get_def map_of_dict_setitem)
    with assms gpr show ?thesis
      by (auto simp: set_ctx_def heap_inv_def list_all_iff
               dest: set_update_subset_insert [THEN subsetD])
  qed
qed

lemma heap_inv_update_insn:
  assumes inv: "heap_inv h" and valid: "valid_ctx h self"
    and upd: "update_insn h self insn ov = Inr h'"
    and nv: "new_values_of (values_of h self) insn ov = Inr nv"
    and nosink: "''x0'' \<notin> set (iflow insn ov (values_of h self))"
    and nofresh: "\<not> dict_contains nv ''x0''"
  shows "heap_inv h'"
proof -
  from nofresh have none: "dict_get nv ''x0'' = None"
    by (simp add: dict_contains_def dict_get_def)
  have "get_ctx h' self ''x0'' = get_ctx h self ''x0''"
    using update_insn_get [OF valid upd nv, of "''x0''"] nosink none by simp
  with heap_inv_nth [OF inv valid] have x0: "x0_inv (values_of h' self)"
    by (simp add: x0_inv_def get_ctx_def)
  from update_insn_other_cells [OF upd]
  have len: "length h' = length h" and other: "\<And>r. r \<noteq> values_ref self \<Longrightarrow> h' ! r = h ! r"
    by simp_all
  have "x0_inv (h' ! r)" if "r < length h'" for r
  proof (cases "r = values_ref self")
    case True
    with x0 show ?thesis by (simp add: values_of_def)
  next
    case False
    with other [OF False] inv that len show ?thesis
      by (simp add: heap_inv_def list_all_length)
  qed
  then show ?thesis
    by (simp add: heap_inv_def list_all_length)
qed

subsection \<open>Evaluating the concrete instructions\<close>

lemmas insn_defs =
  addi_insn_def lui_insn_def lid_insn_def make_insn_def operand_dict_def gpr_operand_def
  imm_operand_def grd_sink_def inc_sink_def inc_sinks_def gpr_to_str_def gpr_names_def

lemmas eval_defs =
  update_insn_def new_values_of_def inc_step_def get_op_val_str_def values_of_def
  get_ctx_def contains_ctx_def dict_get_def dict_contains_def dict_setitem_def dict_update_def
  dict_pop_def pop_sinks_def endswith_def strip_last_def valid_ctx_def ctx0_def ctx1_def
  x0_inv_def heap_inv_def Let_def

lemmas wf_defs = wf_insn_def indexed_def is_reg_def has_operand_def has_reg_operand_def

text \<open>
  Two more evaluations around the invariant: once \<open>x0\<close> is bound to 5, \<open>copy\<close> raises,
  since the constructor asserts the invariant; and \<open>addi x0, x5, 1\<close> with \<open>x5\<close> unknown
  gives no new fact, so that popping the sink \<open>x0\<close> leaves the context empty.
\<close>

lemma copy_after_rebinding_fails:
  "copy_ctx [[(''x0'', 5)]] ctx0 = Inl AssertionError"
  by (simp add: copy_ctx_def ConstantContext_init_def eval_defs)

lemma update_insn_removes_x0:
  "update_insn [[(''x0'', 0)]] ctx0 addi_insn [''grd'' \<mapsto> 0, ''grs1'' \<mapsto> 5, ''imm'' \<mapsto> 1]
     = Inr [[]]"
  by (simp add: eval_defs insn_defs)

section \<open>The claims\<close>

text \<open>
  C1 (the x0 invariant under \<open>update_insn\<close>). The invariant is that \<open>x0\<close> is present and
  maps to 0 in every context. \<open>update_insn\<close> writes \<open>new_values\<close> with \<open>dict.update\<close>,
  not with \<open>set\<close>, and pops every sink: in the context \<open>{x0: 0}\<close>, the instruction
  \<open>addi x0, x0, 5\<close> (operands \<open>grd = 0\<close>, \<open>grs1 = 0\<close>, \<open>imm = 5\<close>) leaves \<open>x0\<close> bound
  to 5. The store satisfies the invariant before the call and not after it.
\<close>

theorem update_insn_rebinds_x0:
  "heap_inv [[(''x0'', 0)]] \<and>
   update_insn [[(''x0'', 0)]] ctx0 addi_insn [''grd'' \<mapsto> 0, ''grs1'' \<mapsto> 0, ''imm'' \<mapsto> 5]
     = Inr [[(''x0'', 5)]] \<and>
   get_ctx [[(''x0'', 5)]] ctx0 ''x0'' = Some 5 \<and>
   \<not> heap_inv [[(''x0'', 5)]]"
  by (simp add: eval_defs insn_defs)

text \<open>
  C2 (invalidation and precedence). Let \<open>sink\<close> be in the sink set that the information
  flow gives for \<open>op_vals\<close> and the values before the update. A well-formed instruction
  makes \<open>update_insn\<close> return; and whenever it returns, with \<open>new_values\<close> the facts of
  lines 72-91: if \<open>sink\<close> is not a key of \<open>new_values\<close> it is absent from the context
  afterwards, and if \<open>new_values\<close> maps it to \<open>v\<close> the context maps it to \<open>v\<close>.
\<close>

theorem update_insn_sinks:
  assumes valid: "valid_ctx h self"
    and sink: "sink \<in> set (iflow insn op_vals (values_of h self))"
  shows "(wf_insn insn op_vals \<longrightarrow> (\<exists>h'. update_insn h self insn op_vals = Inr h')) \<and>
    (\<forall>h'. update_insn h self insn op_vals = Inr h' \<longrightarrow>
      (\<exists>new_values. new_values_of (values_of h self) insn op_vals = Inr new_values \<and>
         (\<not> dict_contains new_values sink \<longrightarrow> \<not> contains_ctx h' self sink) \<and>
         (\<forall>v. dict_get new_values sink = Some v \<longrightarrow> get_ctx h' self sink = Some v)))"
proof (intro conjI allI impI)
  assume "wf_insn insn op_vals"
  then show "\<exists>h'. update_insn h self insn op_vals = Inr h'"
    by (rule update_insn_wf_insn)
next
  fix h'
  assume upd: "update_insn h self insn op_vals = Inr h'"
  from update_insn_Inr [OF valid upd]
  obtain nv where nv: "new_values_of (values_of h self) insn op_vals = Inr nv"
    by blast
  have get: "get_ctx h' self sink = (case dict_get nv sink of Some v \<Rightarrow> Some v | None \<Rightarrow> None)"
    using update_insn_get [OF valid upd nv, of sink] sink
    by (simp split: option.splits)
  have "\<not> dict_contains nv sink \<longrightarrow> \<not> contains_ctx h' self sink"
    using get by (simp add: dict_contains_def contains_ctx_def get_ctx_def dict_get_def)
  moreover have "\<forall>v. dict_get nv sink = Some v \<longrightarrow> get_ctx h' self sink = Some v"
    using get by simp
  ultimately show "\<exists>new_values. new_values_of (values_of h self) insn op_vals = Inr new_values \<and>
         (\<not> dict_contains new_values sink \<longrightarrow> \<not> contains_ctx h' self sink) \<and>
         (\<forall>v. dict_get new_values sink = Some v \<longrightarrow> get_ctx h' self sink = Some v)"
    using nv by blast
qed

theorem update_insn_sinks_witness:
  "valid_ctx [[(''x0'', 0), (''x1'', 5), (''x2'', 9)]] ctx0 \<and>
   ''x2'' \<in> set (iflow addi_insn [''grd'' \<mapsto> 2, ''grs1'' \<mapsto> 1, ''imm'' \<mapsto> 3]
                  (values_of [[(''x0'', 0), (''x1'', 5), (''x2'', 9)]] ctx0)) \<and>
   wf_insn addi_insn [''grd'' \<mapsto> 2, ''grs1'' \<mapsto> 1, ''imm'' \<mapsto> 3] \<and>
   update_insn [[(''x0'', 0), (''x1'', 5), (''x2'', 9)]] ctx0 addi_insn
     [''grd'' \<mapsto> 2, ''grs1'' \<mapsto> 1, ''imm'' \<mapsto> 3]
     = Inr [[(''x0'', 0), (''x1'', 5), (''x2'', 8)]] \<and>
   get_ctx [[(''x0'', 0), (''x1'', 5), (''x2'', 8)]] ctx0 ''x2'' = Some 8 \<and>
   update_insn [[(''x0'', 0), (''x1'', 5), (''x2'', 9)]] ctx0 addi_insn
     [''grd'' \<mapsto> 2, ''grs1'' \<mapsto> 3, ''imm'' \<mapsto> 3]
     = Inr [[(''x0'', 0), (''x1'', 5)]] \<and>
   \<not> contains_ctx [[(''x0'', 0), (''x1'', 5)]] ctx0 ''x2''"
  using update_insn_sinks [of "[[(''x0'', 0), (''x1'', 5), (''x2'', 9)]]" ctx0 "''x2''" addi_insn
      "[''grd'' \<mapsto> 2, ''grs1'' \<mapsto> 1, ''imm'' \<mapsto> 3]"]
    update_insn_sinks [of "[[(''x0'', 0), (''x1'', 5), (''x2'', 9)]]" ctx0 "''x2''" addi_insn
      "[''grd'' \<mapsto> 2, ''grs1'' \<mapsto> 3, ''imm'' \<mapsto> 3]"]
  by (simp add: eval_defs insn_defs wf_defs)

text \<open>
  C3 (the \<open>addi\<close> rule). For an \<open>addi\<close> whose operand \<open>grs1\<close> renders as \<open>grs1_name\<close>:
  a well-formed instruction makes \<open>update_insn\<close> return; and whenever it returns, if
  \<open>grs1_name\<close> was tracked with value \<open>s\<close> then the rendered name of \<open>grd\<close> is known
  afterwards with value \<open>s + op_vals['imm']\<close>, and if \<open>grs1_name\<close> was not tracked then
  \<open>new_values\<close> is empty and every register is unknown if it is a sink and as before
  otherwise.
\<close>

theorem update_insn_addi:
  assumes valid: "valid_ctx h self"
    and addi: "mnemonic insn = ''addi''"
    and grs1: "get_op_val_str insn op_vals ''grs1'' = Inr grs1_name"
  shows "(wf_insn insn op_vals \<longrightarrow> (\<exists>h'. update_insn h self insn op_vals = Inr h')) \<and>
    (\<forall>h'. update_insn h self insn op_vals = Inr h' \<longrightarrow>
      (\<forall>s. get_ctx h self grs1_name = Some s \<longrightarrow>
         (\<exists>grd_name imm. get_op_val_str insn op_vals ''grd'' = Inr grd_name \<and>
            op_vals ''imm'' = Some imm \<and> get_ctx h' self grd_name = Some (s + imm))) \<and>
      (\<not> contains_ctx h self grs1_name \<longrightarrow>
         new_values_of (values_of h self) insn op_vals = Inr [] \<and>
         (\<forall>r. get_ctx h' self r =
            (if r \<in> set (iflow insn op_vals (values_of h self)) then None
             else get_ctx h self r))))"
proof (intro conjI allI impI)
  assume "wf_insn insn op_vals"
  then show "\<exists>h'. update_insn h self insn op_vals = Inr h'"
    by (rule update_insn_wf_insn)
next
  fix h' s
  assume upd: "update_insn h self insn op_vals = Inr h'"
    and src: "get_ctx h self grs1_name = Some s"
  from update_insn_Inr [OF valid upd]
  obtain nv where nv: "new_values_of (values_of h self) insn op_vals = Inr nv"
    by blast
  from nv addi grs1 src
  obtain grd_name imm where grd: "get_op_val_str insn op_vals ''grd'' = Inr grd_name"
    and imm: "op_vals ''imm'' = Some imm"
    and nv_eq: "nv = dict_setitem grd_name (s + imm) []"
    by (auto simp: new_values_of_def get_ctx_def split: sum.splits option.splits)
  have "dict_get nv grd_name = Some (s + imm)"
    by (simp add: nv_eq dict_get_def map_of_dict_setitem)
  with update_insn_get [OF valid upd nv, of grd_name]
  have "get_ctx h' self grd_name = Some (s + imm)" by simp
  with grd imm
  show "\<exists>grd_name imm. get_op_val_str insn op_vals ''grd'' = Inr grd_name \<and>
            op_vals ''imm'' = Some imm \<and> get_ctx h' self grd_name = Some (s + imm)"
    by blast
next
  fix h'
  assume upd: "update_insn h self insn op_vals = Inr h'"
    and unknown: "\<not> contains_ctx h self grs1_name"
  from unknown have none: "dict_get (values_of h self) grs1_name = None"
    by (simp add: contains_ctx_def dict_contains_def dict_get_def)
  with addi grs1 show nv: "new_values_of (values_of h self) insn op_vals = Inr []"
    by (simp add: new_values_of_def)
  fix r
  show "get_ctx h' self r =
      (if r \<in> set (iflow insn op_vals (values_of h self)) then None else get_ctx h self r)"
    using update_insn_get [OF valid upd nv, of r] by (simp add: dict_get_def)
qed

theorem update_insn_addi_witness:
  "valid_ctx [[(''x0'', 0), (''x1'', 5)]] ctx0 \<and>
   mnemonic addi_insn = ''addi'' \<and>
   get_op_val_str addi_insn [''grd'' \<mapsto> 2, ''grs1'' \<mapsto> 1, ''imm'' \<mapsto> 3] ''grs1'' = Inr ''x1'' \<and>
   wf_insn addi_insn [''grd'' \<mapsto> 2, ''grs1'' \<mapsto> 1, ''imm'' \<mapsto> 3] \<and>
   get_ctx [[(''x0'', 0), (''x1'', 5)]] ctx0 ''x1'' = Some 5 \<and>
   update_insn [[(''x0'', 0), (''x1'', 5)]] ctx0 addi_insn
     [''grd'' \<mapsto> 2, ''grs1'' \<mapsto> 1, ''imm'' \<mapsto> 3]
     = Inr [[(''x0'', 0), (''x1'', 5), (''x2'', 8)]] \<and>
   get_ctx [[(''x0'', 0), (''x1'', 5), (''x2'', 8)]] ctx0 ''x2'' = Some 8"
  using update_insn_addi [of "[[(''x0'', 0), (''x1'', 5)]]" ctx0 addi_insn
      "[''grd'' \<mapsto> 2, ''grs1'' \<mapsto> 1, ''imm'' \<mapsto> 3]" "''x1''"]
  by (simp add: eval_defs insn_defs wf_defs)

text \<open>
  C4 (the \<open>lui\<close> rule). For a \<open>lui\<close>, whatever the context holds: a well-formed
  instruction makes \<open>update_insn\<close> return; and whenever it returns, the rendered name of
  \<open>grd\<close> is known afterwards with value \<open>op_vals['imm'] << 12\<close>, which is
  \<open>4096 * op_vals['imm']\<close>.
\<close>

theorem update_insn_lui:
  assumes valid: "valid_ctx h self"
    and lui: "mnemonic insn = ''lui''"
  shows "(wf_insn insn op_vals \<longrightarrow> (\<exists>h'. update_insn h self insn op_vals = Inr h')) \<and>
    (\<forall>h'. update_insn h self insn op_vals = Inr h' \<longrightarrow>
       (\<exists>grd_name imm. get_op_val_str insn op_vals ''grd'' = Inr grd_name \<and>
          op_vals ''imm'' = Some imm \<and>
          get_ctx h' self grd_name = Some (push_bit 12 imm) \<and>
          push_bit 12 imm = imm * 4096))"
proof (intro conjI allI impI)
  assume "wf_insn insn op_vals"
  then show "\<exists>h'. update_insn h self insn op_vals = Inr h'"
    by (rule update_insn_wf_insn)
next
  fix h'
  assume upd: "update_insn h self insn op_vals = Inr h'"
  from update_insn_Inr [OF valid upd]
  obtain nv where nv: "new_values_of (values_of h self) insn op_vals = Inr nv"
    by blast
  from nv lui
  obtain grd_name imm where grd: "get_op_val_str insn op_vals ''grd'' = Inr grd_name"
    and imm: "op_vals ''imm'' = Some imm"
    and nv_eq: "nv = dict_setitem grd_name (push_bit 12 imm) []"
    by (auto simp: new_values_of_def split: sum.splits option.splits)
  have "dict_get nv grd_name = Some (push_bit 12 imm)"
    by (simp add: nv_eq dict_get_def map_of_dict_setitem)
  with update_insn_get [OF valid upd nv, of grd_name]
  have "get_ctx h' self grd_name = Some (push_bit 12 imm)" by simp
  moreover have "push_bit 12 imm = imm * 4096"
    by (simp add: push_bit_eq_mult)
  ultimately
  show "\<exists>grd_name imm. get_op_val_str insn op_vals ''grd'' = Inr grd_name \<and>
          op_vals ''imm'' = Some imm \<and>
          get_ctx h' self grd_name = Some (push_bit 12 imm) \<and>
          push_bit 12 imm = imm * 4096"
    using grd imm by blast
qed

theorem update_insn_lui_witness:
  "valid_ctx [[(''x0'', 0), (''x3'', 7)]] ctx0 \<and>
   mnemonic lui_insn = ''lui'' \<and>
   wf_insn lui_insn [''grd'' \<mapsto> 3, ''imm'' \<mapsto> 2] \<and>
   update_insn [[(''x0'', 0), (''x3'', 7)]] ctx0 lui_insn [''grd'' \<mapsto> 3, ''imm'' \<mapsto> 2]
     = Inr [[(''x0'', 0), (''x3'', 8192)]] \<and>
   get_ctx [[(''x0'', 0), (''x3'', 8192)]] ctx0 ''x3'' = Some 8192"
  using update_insn_lui [of "[[(''x0'', 0), (''x3'', 7)]]" ctx0 lui_insn
      "[''grd'' \<mapsto> 3, ''imm'' \<mapsto> 2]"]
  by (simp add: eval_defs insn_defs wf_defs)

text \<open>
  C10 (frame). When lines 72-91 give \<open>new_values\<close>, \<open>update_insn\<close> returns, and a
  register \<open>r\<close> that is neither a sink nor a key of \<open>new_values\<close> has the same status
  afterwards: the same value if it was tracked, absent if it was absent.
\<close>

theorem update_insn_frame:
  assumes valid: "valid_ctx h self"
    and nv: "new_values_of (values_of h self) insn op_vals = Inr new_values"
    and nosink: "r \<notin> set (iflow insn op_vals (values_of h self))"
    and nofresh: "\<not> dict_contains new_values r"
  shows "\<exists>h'. update_insn h self insn op_vals = Inr h' \<and>
           get_ctx h' self r = get_ctx h self r \<and>
           contains_ctx h' self r = contains_ctx h self r"
proof -
  from nv obtain h' where upd: "update_insn h self insn op_vals = Inr h'"
    by (auto simp: update_insn_def Let_def)
  from nofresh have none: "dict_get new_values r = None"
    by (simp add: dict_contains_def dict_get_def)
  have get: "get_ctx h' self r = get_ctx h self r"
    using update_insn_get [OF valid upd nv, of r] nosink none by simp
  then have "contains_ctx h' self r = contains_ctx h self r"
    by (simp add: contains_ctx_def get_ctx_def dict_contains_def dict_get_def)
  with upd get show ?thesis by blast
qed

theorem update_insn_frame_witness:
  "valid_ctx [[(''x0'', 0), (''x1'', 5), (''x2'', 9)]] ctx0 \<and>
   new_values_of (values_of [[(''x0'', 0), (''x1'', 5), (''x2'', 9)]] ctx0) addi_insn
     [''grd'' \<mapsto> 2, ''grs1'' \<mapsto> 1, ''imm'' \<mapsto> 3] = Inr [(''x2'', 8)] \<and>
   ''x1'' \<notin> set (iflow addi_insn [''grd'' \<mapsto> 2, ''grs1'' \<mapsto> 1, ''imm'' \<mapsto> 3]
                  (values_of [[(''x0'', 0), (''x1'', 5), (''x2'', 9)]] ctx0)) \<and>
   \<not> dict_contains [(''x2'', 8)] ''x1'' \<and>
   update_insn [[(''x0'', 0), (''x1'', 5), (''x2'', 9)]] ctx0 addi_insn
     [''grd'' \<mapsto> 2, ''grs1'' \<mapsto> 1, ''imm'' \<mapsto> 3]
     = Inr [[(''x0'', 0), (''x1'', 5), (''x2'', 8)]] \<and>
   get_ctx [[(''x0'', 0), (''x1'', 5), (''x2'', 8)]] ctx0 ''x1'' = Some 5"
  using update_insn_frame [of "[[(''x0'', 0), (''x1'', 5), (''x2'', 9)]]" ctx0 addi_insn
      "[''grd'' \<mapsto> 2, ''grs1'' \<mapsto> 1, ''imm'' \<mapsto> 3]" "[(''x2'', 8)]" "''x1''"]
  by (simp add: eval_defs insn_defs)

text \<open>
  C5 (the \<open>_inc\<close> rule). The mnemonic is neither \<open>addi\<close> nor \<open>lui\<close>, \<open>op\<close> is an
  operand whose name ends with \<open>_inc\<close> and whose value is not zero, its base operand
  renders as \<open>r\<close>, and \<open>r\<close> is tracked with value \<open>w\<close>. A well-formed instruction makes
  \<open>update_insn\<close> return; whenever it returns, \<open>r\<close> is known afterwards with value
  \<open>w + 1\<close>; and the iteration of the loop for \<open>op\<close> assigns \<open>new_values[r] = w + 1\<close>,
  with \<open>w\<close> read from the values before the instruction, whatever an earlier operand has
  put into \<open>new_values\<close> for \<open>r\<close>: when \<open>op\<close> comes after the operands \<open>ops\<close>, the
  loop over \<open>ops\<close> followed by \<open>op\<close> ends with the entry that \<open>op\<close> writes. The later
  operand overwrites the earlier one.
\<close>

theorem update_insn_inc:
  assumes valid: "valid_ctx h self"
    and other: "mnemonic insn \<noteq> ''addi''" "mnemonic insn \<noteq> ''lui''"
    and op: "op \<in> set (operands insn)"
    and ends: "endswith (name op) ''_inc''"
    and flag: "op_vals (name op) = Some flag" "flag \<noteq> 0"
    and base: "get_op_val_str insn op_vals (strip_last (length ''_inc'') (name op)) = Inr r"
    and old: "get_ctx h self r = Some w"
  shows "(wf_insn insn op_vals \<longrightarrow> (\<exists>h'. update_insn h self insn op_vals = Inr h')) \<and>
    (\<forall>h'. update_insn h self insn op_vals = Inr h' \<longrightarrow> get_ctx h' self r = Some (w + 1)) \<and>
    (\<forall>new_values. inc_step (values_of h self) insn op_vals op new_values
        = Inr (dict_setitem r (w + 1) new_values)) \<and>
    (\<forall>ops new_values. inc_loop (values_of h self) insn op_vals ops [] = Inr new_values \<longrightarrow>
        inc_loop (values_of h self) insn op_vals (ops @ [op]) []
          = Inr (dict_setitem r (w + 1) new_values))"
proof (intro conjI allI impI)
  assume "wf_insn insn op_vals"
  then show "\<exists>h'. update_insn h self insn op_vals = Inr h'"
    by (rule update_insn_wf_insn)
next
  fix h'
  assume upd: "update_insn h self insn op_vals = Inr h'"
  from old have old': "dict_get (values_of h self) r = Some w"
    by (simp add: get_ctx_def)
  from update_insn_Inr [OF valid upd]
  obtain nv where nv: "new_values_of (values_of h self) insn op_vals = Inr nv"
    by blast
  with other have "inc_loop (values_of h self) insn op_vals (operands insn) [] = Inr nv"
    by (simp add: new_values_of_def)
  from inc_loop_fires [OF ends flag base old' op this]
  have "dict_get nv r = Some (w + 1)" .
  with update_insn_get [OF valid upd nv, of r]
  show "get_ctx h' self r = Some (w + 1)" by simp
next
  fix new_values
  from old have "dict_get (values_of h self) r = Some w"
    by (simp add: get_ctx_def)
  from inc_step_fires [OF ends flag base this]
  show "inc_step (values_of h self) insn op_vals op new_values
        = Inr (dict_setitem r (w + 1) new_values)" .
next
  fix ops new_values
  assume loop: "inc_loop (values_of h self) insn op_vals ops [] = Inr new_values"
  from old have "dict_get (values_of h self) r = Some w"
    by (simp add: get_ctx_def)
  from inc_step_fires [OF ends flag base this, of new_values] loop
  show "inc_loop (values_of h self) insn op_vals (ops @ [op]) []
          = Inr (dict_setitem r (w + 1) new_values)"
    by (simp add: inc_loop_snoc)
qed

theorem update_insn_inc_witness:
  "valid_ctx [[(''x0'', 0), (''x1'', 10), (''x2'', 7)]] ctx0 \<and>
   mnemonic lid_insn \<noteq> ''addi'' \<and> mnemonic lid_insn \<noteq> ''lui'' \<and>
   imm_operand ''grs1_inc'' \<in> set (operands lid_insn) \<and>
   endswith (name (imm_operand ''grs1_inc'')) ''_inc'' \<and>
   get_op_val_str lid_insn
     [''grd'' \<mapsto> 2, ''grs1'' \<mapsto> 1, ''offset'' \<mapsto> 0, ''grs1_inc'' \<mapsto> 1, ''grd_inc'' \<mapsto> 0]
     (strip_last (length ''_inc'') (name (imm_operand ''grs1_inc''))) = Inr ''x1'' \<and>
   get_ctx [[(''x0'', 0), (''x1'', 10), (''x2'', 7)]] ctx0 ''x1'' = Some 10 \<and>
   wf_insn lid_insn
     [''grd'' \<mapsto> 2, ''grs1'' \<mapsto> 1, ''offset'' \<mapsto> 0, ''grs1_inc'' \<mapsto> 1, ''grd_inc'' \<mapsto> 0] \<and>
   update_insn [[(''x0'', 0), (''x1'', 10), (''x2'', 7)]] ctx0 lid_insn
     [''grd'' \<mapsto> 2, ''grs1'' \<mapsto> 1, ''offset'' \<mapsto> 0, ''grs1_inc'' \<mapsto> 1, ''grd_inc'' \<mapsto> 0]
     = Inr [[(''x0'', 0), (''x2'', 7), (''x1'', 11)]] \<and>
   get_ctx [[(''x0'', 0), (''x2'', 7), (''x1'', 11)]] ctx0 ''x1'' = Some 11 \<and>
   update_insn [[(''x0'', 0), (''x1'', 10), (''x2'', 7)]] ctx0 lid_insn
     [''grd'' \<mapsto> 1, ''grs1'' \<mapsto> 1, ''offset'' \<mapsto> 0, ''grs1_inc'' \<mapsto> 1, ''grd_inc'' \<mapsto> 1]
     = Inr [[(''x0'', 0), (''x2'', 7), (''x1'', 11)]]"
  using update_insn_inc [of "[[(''x0'', 0), (''x1'', 10), (''x2'', 7)]]" ctx0 lid_insn
      "imm_operand ''grs1_inc''"
      "[''grd'' \<mapsto> 2, ''grs1'' \<mapsto> 1, ''offset'' \<mapsto> 0, ''grs1_inc'' \<mapsto> 1, ''grd_inc'' \<mapsto> 0]"
      1 "''x1''" 10]
  by (simp add: eval_defs insn_defs wf_defs)

text \<open>
  C6 (intersection). For contexts \<open>a\<close> and \<open>b\<close> in the store, both with \<open>x0\<close> bound
  to 0 (the invariant of the data model, which the constructor inside \<open>intersect\<close>
  asserts of the result), \<open>intersect\<close> returns; the result maps \<open>r\<close> to \<open>v\<close> exactly
  when both \<open>a\<close> and \<open>b\<close> map \<open>r\<close> to \<open>v\<close>, so a register known to one input only,
  or with different values, is absent; the result is a new context, not one of the store
  before the call; and the dictionaries of \<open>a\<close> and \<open>b\<close>, as all the store before the
  call, are unchanged.
\<close>

theorem intersect_agree:
  assumes valid: "valid_ctx h a" "valid_ctx h b"
    and wf: "wf_dict (values_of h a)"
    and inv: "x0_inv (values_of h a)" "x0_inv (values_of h b)"
  shows "\<exists>h' c. intersect h a b = Inr (h', c) \<and>
     (\<forall>r v. get_ctx h' c r = Some v \<longleftrightarrow> get_ctx h a r = Some v \<and> get_ctx h b r = Some v) \<and>
     (\<forall>r. contains_ctx h' c r \<longleftrightarrow> contains_ctx h a r \<and> get_ctx h a r = get_ctx h b r) \<and>
     \<not> valid_ctx h c \<and> valid_ctx h' c \<and>
     values_of h' a = values_of h a \<and> values_of h' b = values_of h b \<and>
     take (length h) h' = h"
proof -
  let ?out = "filter (\<lambda>(k, v). get_ctx h b k = Some v) (values_of h a)"
  let ?h' = "h @ [?out]"
  let ?c = "\<lparr>values_ref = length h\<rparr>"
  from wf have dist: "distinct (map fst (values_of h a))"
    by (simp add: wf_dict_def)
  have res: "intersect h a b = Inr (?h', ?c)"
    using wf inv by (rule intersect_Inr)
  have get: "get_ctx ?h' ?c r = Some v \<longleftrightarrow> get_ctx h a r = Some v \<and> get_ctx h b r = Some v"
    for r v
    by (simp add: get_ctx_def [of ?h'] values_of_new dict_get_def map_of_filter_distinct [OF dist])
      (simp add: get_ctx_def dict_get_def)
  have cont: "contains_ctx ?h' ?c r \<longleftrightarrow> contains_ctx h a r \<and> get_ctx h a r = get_ctx h b r"
    for r
  proof -
    have "contains_ctx ?h' ?c r \<longleftrightarrow> (\<exists>v. get_ctx ?h' ?c r = Some v)"
      by (simp add: contains_ctx_def get_ctx_def dict_contains_def dict_get_def)
    also have "\<dots> \<longleftrightarrow> (\<exists>v. get_ctx h a r = Some v \<and> get_ctx h b r = Some v)"
      by (simp only: get)
    also have "\<dots> \<longleftrightarrow> contains_ctx h a r \<and> get_ctx h a r = get_ctx h b r"
      by (auto simp: contains_ctx_def get_ctx_def dict_contains_def dict_get_def)
    finally show ?thesis .
  qed
  have "\<not> valid_ctx h ?c" "valid_ctx ?h' ?c"
    by (simp_all add: valid_ctx_def)
  moreover have "values_of ?h' a = values_of h a" "values_of ?h' b = values_of h b"
    using valid by (simp_all add: values_of_old)
  moreover have "take (length h) ?h' = h" by simp
  ultimately show ?thesis
    using res get cont by blast
qed

theorem intersect_agree_witness:
  "valid_ctx [[(''x0'', 0), (''x1'', 10), (''x2'', 7)],
              [(''x2'', 7), (''x1'', 11), (''x0'', 0), (''x3'', 1)]] ctx0 \<and>
   valid_ctx [[(''x0'', 0), (''x1'', 10), (''x2'', 7)],
              [(''x2'', 7), (''x1'', 11), (''x0'', 0), (''x3'', 1)]] ctx1 \<and>
   wf_dict [(''x0'', 0), (''x1'', 10), (''x2'', 7)] \<and>
   x0_inv [(''x0'', 0), (''x1'', 10), (''x2'', 7)] \<and>
   x0_inv [(''x2'', 7), (''x1'', 11), (''x0'', 0), (''x3'', 1)] \<and>
   intersect [[(''x0'', 0), (''x1'', 10), (''x2'', 7)],
              [(''x2'', 7), (''x1'', 11), (''x0'', 0), (''x3'', 1)]] ctx0 ctx1
     = Inr ([[(''x0'', 0), (''x1'', 10), (''x2'', 7)],
             [(''x2'', 7), (''x1'', 11), (''x0'', 0), (''x3'', 1)],
             [(''x0'', 0), (''x2'', 7)]], \<lparr>values_ref = 2\<rparr>)"
  using intersect_agree [of "[[(''x0'', 0), (''x1'', 10), (''x2'', 7)],
              [(''x2'', 7), (''x1'', 11), (''x0'', 0), (''x3'', 1)]]" ctx0 ctx1]
  by (simp add: eval_defs intersect_defs)

text \<open>
  C7 (intersection is commutative and idempotent on content). For contexts \<open>a\<close> and \<open>b\<close>
  with \<open>x0\<close> bound to 0, \<open>a.intersect(b)\<close> and \<open>b.intersect(a)\<close> both return and hold
  the same set of register/value pairs (the order of the items may differ), and
  \<open>a.intersect(a)\<close> returns a context that holds the pairs of \<open>a\<close>.
\<close>

theorem intersect_comm_idem:
  assumes wf: "wf_dict (values_of h a)" "wf_dict (values_of h b)"
    and inv: "x0_inv (values_of h a)" "x0_inv (values_of h b)"
  shows "\<exists>h1 c1 h2 c2 h3 c3.
     intersect h a b = Inr (h1, c1) \<and> intersect h b a = Inr (h2, c2) \<and>
     set (values_of h1 c1) = set (values_of h2 c2) \<and>
     (\<forall>r. get_ctx h1 c1 r = get_ctx h2 c2 r) \<and>
     intersect h a a = Inr (h3, c3) \<and>
     set (values_of h3 c3) = set (values_of h a) \<and>
     (\<forall>r. get_ctx h3 c3 r = get_ctx h a r)"
proof -
  let ?c = "\<lparr>values_ref = length h\<rparr>"
  let ?ab = "filter (\<lambda>(k, v). get_ctx h b k = Some v) (values_of h a)"
  let ?ba = "filter (\<lambda>(k, v). get_ctx h a k = Some v) (values_of h b)"
  let ?aa = "filter (\<lambda>(k, v). get_ctx h a k = Some v) (values_of h a)"
  from wf have da: "distinct (map fst (values_of h a))" and db: "distinct (map fst (values_of h b))"
    by (simp_all add: wf_dict_def)
  have ab: "intersect h a b = Inr (h @ [?ab], ?c)"
    using wf(1) inv(1) inv(2) by (rule intersect_Inr)
  have ba: "intersect h b a = Inr (h @ [?ba], ?c)"
    using wf(2) inv(2) inv(1) by (rule intersect_Inr)
  have aa: "intersect h a a = Inr (h @ [?aa], ?c)"
    using wf(1) inv(1) inv(1) by (rule intersect_Inr)
  have mem_a: "(k, v) \<in> set (values_of h a) \<longleftrightarrow> get_ctx h a k = Some v" for k v
    using da by (simp add: get_ctx_def dict_get_def)
  have mem_b: "(k, v) \<in> set (values_of h b) \<longleftrightarrow> get_ctx h b k = Some v" for k v
    using db by (simp add: get_ctx_def dict_get_def)
  have set_eq: "set ?ab = set ?ba"
    using mem_a mem_b by auto
  have "?aa = values_of h a"
    using mem_a by (intro filter_True) auto
  then have idem: "set ?aa = set (values_of h a)" "map_of ?aa = map_of (values_of h a)"
    by simp_all
  have "distinct (map fst ?ab)" "distinct (map fst ?ba)"
    using da db by (simp_all add: distinct_map_filter)
  with set_eq have "map_of ?ab = map_of ?ba"
    by (intro map_of_inject_set [THEN iffD2])
  then have get_eq: "get_ctx (h @ [?ab]) ?c r = get_ctx (h @ [?ba]) ?c r" for r
    by (simp add: get_ctx_def values_of_new dict_get_def)
  have get_idem: "get_ctx (h @ [?aa]) ?c r = get_ctx h a r" for r
    using idem(2) by (simp add: get_ctx_def [of "h @ [?aa]"] values_of_new dict_get_def)
      (simp add: get_ctx_def dict_get_def)
  show ?thesis
    using ab ba aa set_eq idem(1) get_eq get_idem
    by (simp add: values_of_new)
qed

theorem intersect_comm_idem_witness:
  "wf_dict [(''x0'', 0), (''x1'', 10), (''x2'', 7)] \<and>
   wf_dict [(''x2'', 7), (''x1'', 11), (''x0'', 0), (''x3'', 1)] \<and>
   x0_inv [(''x0'', 0), (''x1'', 10), (''x2'', 7)] \<and>
   x0_inv [(''x2'', 7), (''x1'', 11), (''x0'', 0), (''x3'', 1)] \<and>
   intersect [[(''x0'', 0), (''x1'', 10), (''x2'', 7)],
              [(''x2'', 7), (''x1'', 11), (''x0'', 0), (''x3'', 1)]] ctx0 ctx1
     = Inr ([[(''x0'', 0), (''x1'', 10), (''x2'', 7)],
             [(''x2'', 7), (''x1'', 11), (''x0'', 0), (''x3'', 1)],
             [(''x0'', 0), (''x2'', 7)]], \<lparr>values_ref = 2\<rparr>) \<and>
   intersect [[(''x0'', 0), (''x1'', 10), (''x2'', 7)],
              [(''x2'', 7), (''x1'', 11), (''x0'', 0), (''x3'', 1)]] ctx1 ctx0
     = Inr ([[(''x0'', 0), (''x1'', 10), (''x2'', 7)],
             [(''x2'', 7), (''x1'', 11), (''x0'', 0), (''x3'', 1)],
             [(''x2'', 7), (''x0'', 0)]], \<lparr>values_ref = 2\<rparr>) \<and>
   set [(''x0'', 0::int), (''x2'', 7)] = set [(''x2'', 7), (''x0'', 0)] \<and>
   intersect [[(''x0'', 0), (''x1'', 10), (''x2'', 7)],
              [(''x2'', 7), (''x1'', 11), (''x0'', 0), (''x3'', 1)]] ctx0 ctx0
     = Inr ([[(''x0'', 0), (''x1'', 10), (''x2'', 7)],
             [(''x2'', 7), (''x1'', 11), (''x0'', 0), (''x3'', 1)],
             [(''x0'', 0), (''x1'', 10), (''x2'', 7)]], \<lparr>values_ref = 2\<rparr>)"
  using intersect_comm_idem [of "[[(''x0'', 0), (''x1'', 10), (''x2'', 7)],
              [(''x2'', 7), (''x1'', 11), (''x0'', 0), (''x3'', 1)]]" ctx0 ctx1]
  by (simp add: eval_defs intersect_defs insert_commute)

text \<open>
  C8 (\<open>set\<close>). \<open>c.set("x0", v)\<close> changes nothing in the store, so \<open>c.get("x0")\<close> is
  still 0 in a context that satisfies the invariant; and for a register \<open>r\<close> other than
  \<open>x0\<close>, \<open>c.get(r)\<close> is \<open>v\<close> after \<open>c.set(r, v)\<close>.
\<close>

theorem set_ctx_spec:
  "set_ctx h c ''x0'' v = h \<and>
   (x0_inv (values_of h c) \<longrightarrow> get_ctx (set_ctx h c ''x0'' v) c ''x0'' = Some 0) \<and>
   (valid_ctx h c \<and> r \<noteq> ''x0'' \<longrightarrow> get_ctx (set_ctx h c r v) c r = Some v)"
  by (simp add: set_ctx_def get_ctx_def values_of_def valid_ctx_def x0_inv_def dict_get_def
        map_of_dict_setitem)

theorem set_ctx_spec_witness:
  "valid_ctx [[(''x0'', 0), (''x1'', 10)]] ctx0 \<and> x0_inv (values_of [[(''x0'', 0), (''x1'', 10)]] ctx0) \<and>
   set_ctx [[(''x0'', 0), (''x1'', 10)]] ctx0 ''x0'' 9 = [[(''x0'', 0), (''x1'', 10)]] \<and>
   get_ctx (set_ctx [[(''x0'', 0), (''x1'', 10)]] ctx0 ''x0'' 9) ctx0 ''x0'' = Some 0 \<and>
   ''x1'' \<noteq> ''x0'' \<and>
   set_ctx [[(''x0'', 0), (''x1'', 10)]] ctx0 ''x1'' 9 = [[(''x0'', 0), (''x1'', 9)]] \<and>
   get_ctx (set_ctx [[(''x0'', 0), (''x1'', 10)]] ctx0 ''x1'' 9) ctx0 ''x1'' = Some 9"
  using set_ctx_spec [of "[[(''x0'', 0), (''x1'', 10)]]" ctx0 9 "''x1''"]
  by (simp add: eval_defs set_ctx_def)

text \<open>
  C9 (failures). The constructor raises exactly when the mapping it is given has no \<open>x0\<close>
  or binds \<open>x0\<close> to a value other than 0, and what it raises is the AssertionError.
  \<open>empty\<close> always returns; \<open>copy\<close> and \<open>intersect\<close> return on contexts that satisfy the
  invariant; \<open>update_insn\<close> returns on a well-formed instruction. \<open>get\<close>, \<open>contains\<close>
  and \<open>set\<close> have no \<open>assert\<close>, no \<open>raise\<close> and no subscript read in the source, and
  their embeddings \<open>get_ctx\<close>, \<open>contains_ctx\<close> and \<open>set_ctx\<close> return plain values.
\<close>

theorem only_init_fails:
  "(ConstantContext_init h vals = Inl e \<longleftrightarrow>
      e = AssertionError \<and>
      (dict_get vals ''x0'' = None \<or> (\<exists>v. dict_get vals ''x0'' = Some v \<and> v \<noteq> 0))) \<and>
   (\<exists>h' c. empty_ctx h = Inr (h', c)) \<and>
   (x0_inv (values_of h self) \<longrightarrow> (\<exists>h' c. copy_ctx h self = Inr (h', c))) \<and>
   (wf_dict (values_of h self) \<and> x0_inv (values_of h self) \<and> x0_inv (values_of h other) \<longrightarrow>
      (\<exists>h' c. intersect h self other = Inr (h', c))) \<and>
   (wf_insn insn op_vals \<longrightarrow> (\<exists>h'. update_insn h self insn op_vals = Inr h'))"
proof (intro conjI impI)
  show "ConstantContext_init h vals = Inl e \<longleftrightarrow>
      e = AssertionError \<and>
      (dict_get vals ''x0'' = None \<or> (\<exists>v. dict_get vals ''x0'' = Some v \<and> v \<noteq> 0))"
    by (cases "dict_get vals ''x0''") (auto simp: ConstantContext_init_def)
  show "\<exists>h' c. empty_ctx h = Inr (h', c)"
    by (simp add: empty_ctx_def ConstantContext_init_def dict_get_def)
  show "\<exists>h' c. copy_ctx h self = Inr (h', c)" if "x0_inv (values_of h self)"
    using that by (simp add: copy_ctx_def init_Inr)
  show "\<exists>h' c. intersect h self other = Inr (h', c)"
    if "wf_dict (values_of h self) \<and> x0_inv (values_of h self) \<and> x0_inv (values_of h other)"
    using that by (simp add: intersect_Inr)
  show "\<exists>h'. update_insn h self insn op_vals = Inr h'" if "wf_insn insn op_vals"
    using that by (rule update_insn_wf_insn)
qed

theorem only_init_fails_witness:
  "ConstantContext_init [[(''x0'', 0), (''x1'', 10)]] [(''x1'', 3)] = Inl AssertionError \<and>
   ConstantContext_init [[(''x0'', 0), (''x1'', 10)]] [(''x0'', 5)] = Inl AssertionError \<and>
   dict_get [(''x1'', 3)] ''x0'' = None \<and> dict_get [(''x0'', 5)] ''x0'' = Some 5 \<and>
   empty_ctx [[(''x0'', 0), (''x1'', 10)]]
     = Inr ([[(''x0'', 0), (''x1'', 10)], [(''x0'', 0)]], \<lparr>values_ref = 1\<rparr>) \<and>
   x0_inv (values_of [[(''x0'', 0), (''x1'', 10)]] ctx0) \<and>
   wf_dict (values_of [[(''x0'', 0), (''x1'', 10)]] ctx0) \<and>
   copy_ctx [[(''x0'', 0), (''x1'', 10)]] ctx0
     = Inr ([[(''x0'', 0), (''x1'', 10)], [(''x0'', 0), (''x1'', 10)]], \<lparr>values_ref = 1\<rparr>) \<and>
   intersect [[(''x0'', 0), (''x1'', 10)]] ctx0 ctx0
     = Inr ([[(''x0'', 0), (''x1'', 10)], [(''x0'', 0), (''x1'', 10)]], \<lparr>values_ref = 1\<rparr>) \<and>
   wf_insn addi_insn [''grd'' \<mapsto> 2, ''grs1'' \<mapsto> 1, ''imm'' \<mapsto> 3] \<and>
   update_insn [[(''x0'', 0), (''x1'', 10)]] ctx0 addi_insn
     [''grd'' \<mapsto> 2, ''grs1'' \<mapsto> 1, ''imm'' \<mapsto> 3]
     = Inr [[(''x0'', 0), (''x1'', 10), (''x2'', 13)]]"
  using only_init_fails [of "[[(''x0'', 0), (''x1'', 10)]]" "[(''x1'', 3)]" AssertionError
      ctx0 ctx0 addi_insn "[''grd'' \<mapsto> 2, ''grs1'' \<mapsto> 1, ''imm'' \<mapsto> 3]"]
    only_init_fails [of "[[(''x0'', 0), (''x1'', 10)]]" "[(''x0'', 5)]" AssertionError
      ctx0 ctx0 addi_insn "[''grd'' \<mapsto> 2, ''grs1'' \<mapsto> 1, ''imm'' \<mapsto> 3]"]
  by (simp add: eval_defs intersect_defs insn_defs wf_defs empty_ctx_def copy_ctx_def)

end
